theory Spec2Isabelle
  imports Complex_Main "HOL-Library.Word"
begin

section \<open>Python list primitives\<close>

text \<open>
  The operation stack keeps its history in a Python list and addresses it with a signed
  cursor. Python accepts negative indices (they count from the end), raises
  \<^verbatim>\<open>IndexError\<close> outside the list, and clamps slice bounds instead of raising. The three
  primitives below are the ones \<^verbatim>\<open>OperationStack.py\<close> uses: \<^verbatim>\<open>xs[i]\<close>, \<^verbatim>\<open>del xs[i]\<close>
  and \<^verbatim>\<open>del xs[a:b]\<close>.
\<close>

datatype py_error = IndexError | TypeError | StructError | OverflowError

definition py_index :: "'a list \<Rightarrow> int \<Rightarrow> py_error + 'a" where
  "py_index xs i =
     (let n = int (length xs); j = (if i < 0 then i + n else i)
      in if 0 \<le> j \<and> j < n then Inr (xs ! nat j) else Inl IndexError)"

definition py_del :: "'a list \<Rightarrow> int \<Rightarrow> py_error + 'a list" where
  "py_del xs i =
     (let n = int (length xs); j = (if i < 0 then i + n else i)
      in if 0 \<le> j \<and> j < n then Inr (take (nat j) xs @ drop (Suc (nat j)) xs)
         else Inl IndexError)"

definition slice_bound :: "nat \<Rightarrow> int \<Rightarrow> nat" where
  "slice_bound n i = (if i < 0 then nat (max (i + int n) 0) else min (nat i) n)"

definition py_del_slice :: "'a list \<Rightarrow> int \<Rightarrow> int \<Rightarrow> 'a list" where
  "py_del_slice xs a b =
     (let lo = slice_bound (length xs) a; hi = slice_bound (length xs) b
      in if lo < hi then take lo xs @ drop hi xs else xs)"

section \<open>The operation stack\<close>

text \<open>
  The class \<^verbatim>\<open>Operation\<close> is supplied by callers; the stack reads two attributes of an
  operation (\<^verbatim>\<open>_timestamp\<close>, \<^verbatim>\<open>_always_merge\<close>) and calls three of its methods. The
  attributes and \<^verbatim>\<open>mergeWith\<close> are taken as parameters, collected in a record. The result
  of \<^verbatim>\<open>mergeWith\<close> is tested for truth by the stack: \<open>None\<close> stands for a result that
  tests false (Python's \<^verbatim>\<open>None\<close>), \<open>Some m\<close> for an operation object \<open>m\<close>. The calls
  of \<^verbatim>\<open>redo()\<close>, \<^verbatim>\<open>undo()\<close>, \<^verbatim>\<open>mergeWith()\<close> and the emission of the \<^verbatim>\<open>changed\<close>
  signal are the effects of the stack on the rest of the program; they are recorded, in
  order, in a trace carried by the state. The operation methods are taken to return.
  Timestamps are seconds as real numbers: the difference of two timestamps is exact here,
  where Python rounds it to a double, and the comparison with the window is the source's.
\<close>

record 'op methods =
  timestamp :: "'op \<Rightarrow> real"
  always_merge :: "'op \<Rightarrow> bool"
  mergeWith :: "'op \<Rightarrow> 'op \<Rightarrow> 'op option"

datatype 'op event = Redo 'op | Undo 'op | MergeWith 'op 'op | Changed

record 'op operation_stack =
  operations :: "'op list"
  current_index :: int
  lock :: bool
  trace :: "'op event list"

text \<open>
  A method that runs to its end gives \<open>Returned\<close> with the state it leaves; one that
  raises gives \<open>Raised\<close> with the exception and the state at that point.
\<close>

datatype 's outcome = Returned 's | Raised py_error 's

definition init :: "'op operation_stack" where
  "init = \<lparr>operations = [], current_index = - 1, lock = False, trace = []\<rparr>"

definition merge_window :: real where
  "merge_window = 1.0"

definition doMerge :: "'op methods \<Rightarrow> 'op operation_stack \<Rightarrow> 'op operation_stack outcome" where
  "doMerge M s =
     (if length (operations s) \<ge> 2 then
        (case py_index (operations s) (current_index s) of
           Inl e \<Rightarrow> Raised e s
         | Inr op1 \<Rightarrow>
        (case py_index (operations s) (current_index s - 1) of
           Inl e \<Rightarrow> Raised e s
         | Inr op2 \<Rightarrow>
        if (\<not> always_merge M op1 \<and> \<not> always_merge M op2) \<and>
           \<bar>timestamp M op1 - timestamp M op2\<bar> > merge_window
        then Returned s
        else
          (let s1 = s\<lparr>trace := trace s @ [MergeWith op1 op2]\<rparr> in
           case mergeWith M op1 op2 of
             None \<Rightarrow> Returned s1
           | Some merged \<Rightarrow>
               (case py_del (operations s1) (current_index s1) of
                  Inl e \<Rightarrow> Raised e s1
                | Inr xs1 \<Rightarrow>
               (case py_del xs1 (current_index s1 - 1) of
                  Inl e \<Rightarrow> Raised e (s1\<lparr>operations := xs1\<rparr>)
                | Inr xs2 \<Rightarrow>
                    Returned (s1\<lparr>operations := xs2 @ [merged],
                                  current_index := current_index s1 - 1\<rparr>))))))
      else Returned s)"

text \<open>
  The body of \<^verbatim>\<open>push\<close> in the source's order: the redo tail is cut (lines 34-35), the
  operation is appended, applied and the cursor advanced (lines 37-39), the merge step
  runs (line 41), the signal is emitted (line 43) and the guard is released in the
  \<^verbatim>\<open>finally\<close> clause whether or not the body raised (line 45).
\<close>

definition truncate_tail :: "'op operation_stack \<Rightarrow> 'op operation_stack" where
  "truncate_tail s =
     (if current_index s < int (length (operations s)) - 1
      then s\<lparr>operations :=
             py_del_slice (operations s) (current_index s + 1) (int (length (operations s)))\<rparr>
      else s)"

definition append_apply :: "'op operation_stack \<Rightarrow> 'op \<Rightarrow> 'op operation_stack" where
  "append_apply s operation =
     s\<lparr>operations := operations s @ [operation],
       trace := trace s @ [Redo operation],
       current_index := current_index s + 1\<rparr>"

definition emit_release :: "'op operation_stack outcome \<Rightarrow> 'op operation_stack outcome" where
  "emit_release r =
     (case r of
        Returned s \<Rightarrow> Returned (s\<lparr>trace := trace s @ [Changed], lock := False\<rparr>)
      | Raised e s \<Rightarrow> Raised e (s\<lparr>lock := False\<rparr>))"

text \<open>The state when the merge step starts: the guard taken, lines 34-39 done.\<close>

definition apply_operation :: "'op operation_stack \<Rightarrow> 'op \<Rightarrow> 'op operation_stack" where
  "apply_operation s operation = append_apply (truncate_tail (s\<lparr>lock := True\<rparr>)) operation"

definition push :: "'op methods \<Rightarrow> 'op operation_stack \<Rightarrow> 'op \<Rightarrow> 'op operation_stack outcome" where
  "push M s operation =
     (if lock s then Returned s
      else emit_release (doMerge M (apply_operation s operation)))"

text \<open>
  \<^verbatim>\<open>undo\<close>, \<^verbatim>\<open>redo\<close> and \<^verbatim>\<open>getOperations\<close> take the guard with a blocking
  \<^verbatim>\<open>with self._lock\<close>: called while the guard is held they do not return in that state,
  which is the value \<open>None\<close>. Both index the list only inside their own bounds check.
\<close>

definition undo :: "'op operation_stack \<Rightarrow> 'op operation_stack option" where
  "undo s =
     (if lock s then None
      else if current_index s \<ge> 0 \<and> current_index s < int (length (operations s))
      then Some (s\<lparr>trace := trace s @ [Undo (operations s ! nat (current_index s)), Changed],
                   current_index := current_index s - 1\<rparr>)
      else Some s)"

definition redo :: "'op operation_stack \<Rightarrow> 'op operation_stack option" where
  "redo s =
     (if lock s then None
      else let n = current_index s + 1 in
        if n \<ge> 0 \<and> n < int (length (operations s))
        then Some (s\<lparr>trace := trace s @ [Redo (operations s ! nat n), Changed],
                     current_index := current_index s + 1\<rparr>)
        else Some s)"

definition getOperations :: "'op operation_stack \<Rightarrow> 'op list option" where
  "getOperations s = (if lock s then None else Some (operations s))"

definition canUndo :: "'op operation_stack \<Rightarrow> bool" where
  "canUndo s = (current_index s \<ge> 0)"

definition canRedo :: "'op operation_stack \<Rightarrow> bool" where
  "canRedo s = (current_index s < int (length (operations s)) - 1)"


definition stack_inv :: "'op operation_stack \<Rightarrow> bool" where
  "stack_inv s = (- 1 \<le> current_index s \<and> current_index s \<le> int (length (operations s)) - 1)"

text \<open>
  The test of lines 104-106 that lets the merge step go on to \<^verbatim>\<open>mergeWith\<close>: it stops
  only when neither operation has the flag and the timestamps are more than the window
  apart.
\<close>

definition eligible :: "'op methods \<Rightarrow> 'op \<Rightarrow> 'op \<Rightarrow> bool" where
  "eligible M op1 op2 =
     (\<not> ((\<not> always_merge M op1 \<and> \<not> always_merge M op2) \<and>
         \<bar>timestamp M op1 - timestamp M op2\<bar> > merge_window))"


definition new_events :: "'op operation_stack \<Rightarrow> 'op operation_stack \<Rightarrow> 'op event list" where
  "new_events s s' = drop (length (trace s)) (trace s')"

text \<open>
  The states a program can bring the stack to: it starts empty, every call of \<^verbatim>\<open>push\<close>,
  \<^verbatim>\<open>undo\<close> and \<^verbatim>\<open>redo\<close> that returns leads to the next state, and between two calls
  another thread may take or release the guard.
\<close>

inductive reachable :: "'op methods \<Rightarrow> 'op operation_stack \<Rightarrow> bool" for M :: "'op methods" where
  start: "reachable M init"
| after_push: "reachable M s \<Longrightarrow> push M s x = Returned s' \<Longrightarrow> reachable M s'"
| after_undo: "reachable M s \<Longrightarrow> undo s = Some s' \<Longrightarrow> reachable M s'"
| after_redo: "reachable M s \<Longrightarrow> redo s = Some s' \<Longrightarrow> reachable M s'"
| guard: "reachable M s \<Longrightarrow> reachable M (s\<lparr>lock := b\<rparr>)"

section \<open>The buffer decoders of the backend\<close>

text \<open>
  \<^verbatim>\<open>Backend.convertBytesToVerticeList\<close> and \<^verbatim>\<open>convertBytesToVerticeWithNormalsList\<close>
  cut a byte buffer into records of 12 and 24 bytes and unpack each with
  \<^verbatim>\<open>struct.unpack\<close> (formats \<^verbatim>\<open>'fff'\<close> and \<^verbatim>\<open>'ffffff'\<close>). The number of records is
  computed as \<^verbatim>\<open>int(len(data)/12)\<close>: a true division, whose result is the double nearest
  to the quotient. The guard before it lets only exact multiples through, so the quotient
  is a natural number, and the double nearest to it is that number rounded to 53
  significant bits, ties to the even significand.
\<close>

type_synonym byte = "8 word"

fun bit_length :: "nat \<Rightarrow> nat" where
  "bit_length n = (if n = 0 then 0 else Suc (bit_length (n div 2)))"

definition round_double :: "nat \<Rightarrow> nat" where
  "round_double q =
     (let e = bit_length q - 53; m = q div 2 ^ e; r = q mod 2 ^ e
      in if 2 * r > 2 ^ e \<or> (2 * r = 2 ^ e \<and> odd m) then (m + 1) * 2 ^ e else m * 2 ^ e)"

text \<open>
  \<^verbatim>\<open>int(n / d)\<close> where \<open>d\<close> divides \<open>n\<close>; a quotient that rounds beyond the largest
  double raises \<^verbatim>\<open>OverflowError\<close>.
\<close>

definition int_truediv :: "nat \<Rightarrow> nat \<Rightarrow> py_error + nat" where
  "int_truediv n d =
     (let f = round_double (n div d) in if f \<ge> 2 ^ 1024 then Inl OverflowError else Inr f)"

text \<open>\<^verbatim>\<open>xs[lo:hi]\<close> for bounds that are not negative: the slice is clamped to the list.\<close>

definition py_slice :: "'a list \<Rightarrow> nat \<Rightarrow> nat \<Rightarrow> 'a list" where
  "py_slice xs lo hi = take (hi - lo) (drop lo xs)"

text \<open>
  \<^verbatim>\<open>struct.unpack\<close> with a format of \<open>k\<close> letters \<^verbatim>\<open>f\<close>: the buffer must hold exactly
  \<open>4 * k\<close> bytes (a \<^verbatim>\<open>struct.error\<close> otherwise), and each group of four bytes is decoded
  as one 32-bit float in the byte order of the machine. That decoding is the parameter
  \<open>f32\<close>; the tuple is the list of the \<open>k\<close> decoded values.
\<close>

definition struct_unpack :: "(byte list \<Rightarrow> 'f) \<Rightarrow> nat \<Rightarrow> byte list \<Rightarrow> py_error + 'f list" where
  "struct_unpack f32 k bs =
     (if length bs = 4 * k then Inr (map (\<lambda>j. f32 (take 4 (drop (4 * j) bs))) [0..<k])
      else Inl StructError)"

text \<open>The loop \<^verbatim>\<open>for index in range(0, n): result.append(struct.unpack(...))\<close>.\<close>

function unpack_records ::
  "(byte list \<Rightarrow> 'f) \<Rightarrow> nat \<Rightarrow> nat \<Rightarrow> byte list \<Rightarrow> nat \<Rightarrow> nat \<Rightarrow> 'f list list \<Rightarrow> py_error + 'f list list"
where
  "unpack_records f32 k sz data index n result =
     (if index < n then
        (case struct_unpack f32 k (py_slice data (index * sz) (index * sz + sz)) of
           Inl e \<Rightarrow> Inl e
         | Inr t \<Rightarrow> unpack_records f32 k sz data (Suc index) n (result @ [t]))
      else Inr result)"
  by pat_completeness auto
termination
  by (relation "measure (\<lambda>(f32, k, sz, data, index, n, result). n - index)") auto

text \<open>
  A decoder gives the entries it sent to \<^verbatim>\<open>Logger.log\<close> and either the exception it
  raised or the value it returned, where \<open>None\<close> is Python's \<^verbatim>\<open>None\<close>. The argument is
  \<open>None\<close> when the caller passes \<^verbatim>\<open>None\<close>, on which \<^verbatim>\<open>len\<close> raises; so the inner test
  \<^verbatim>\<open>data is not None\<close> holds wherever it is reached.
\<close>

type_synonym 'f decoded = "(string \<times> string) list \<times> (py_error + 'f list list option)"

definition convertBytesToVerticeList :: "(byte list \<Rightarrow> 'f) \<Rightarrow> byte list option \<Rightarrow> 'f decoded" where
  "convertBytesToVerticeList f32 data =
     (case data of
        None \<Rightarrow> ([], Inl TypeError)
      | Some bs \<Rightarrow>
          if length bs mod 12 = 0 then
            (case int_truediv (length bs) 12 of
               Inl e \<Rightarrow> ([], Inl e)
             | Inr n \<Rightarrow>
                 (case unpack_records f32 3 12 bs 0 n [] of
                    Inl e \<Rightarrow> ([], Inl e)
                  | Inr result \<Rightarrow> ([], Inr (Some result))))
          else ([(''e'', ''Data length was incorrect for requested type'')], Inr None))"

definition convertBytesToVerticeWithNormalsList ::
  "(byte list \<Rightarrow> 'f) \<Rightarrow> byte list option \<Rightarrow> 'f decoded" where
  "convertBytesToVerticeWithNormalsList f32 data =
     (case data of
        None \<Rightarrow> ([], Inl TypeError)
      | Some bs \<Rightarrow>
          if length bs mod 24 = 0 then
            (case int_truediv (length bs) 24 of
               Inl e \<Rightarrow> ([], Inl e)
             | Inr n \<Rightarrow>
                 (case unpack_records f32 6 24 bs 0 n [] of
                    Inl e \<Rightarrow> ([], Inl e)
                  | Inr result \<Rightarrow> ([], Inr (Some result))))
          else ([(''e'', ''Data length was incorrect for requested type'')], Inr None))"

section \<open>Example inputs\<close>

text \<open>
  A small operation type for concrete runs: an operation carries a label, its timestamp
  and its merge flag, and two operations either always merge into one that joins the
  labels, or never do.
\<close>

datatype example_op = ExampleOp (label: string) (stamp: real) (always: bool)

definition example_methods :: "bool \<Rightarrow> example_op methods" where
  "example_methods mergeable =
     \<lparr>timestamp = stamp, always_merge = always,
      mergeWith = (\<lambda>a b. if mergeable
                          then Some (ExampleOp (label b @ label a) (stamp a) (always a))
                          else None)\<rparr>"

definition opA :: example_op where
  "opA = ExampleOp ''A'' 0 False"

definition opB :: example_op where
  "opB = ExampleOp ''B'' 1 False"

definition opC :: example_op where
  "opC = ExampleOp ''C'' 5 False"

section \<open>Lemmas on the stack\<close>

text \<open>
  The new stack is a polymorphic constant; with its cursor written as a constructor term
  the generated code for it is a value, and runs from \<open>init\<close> can be evaluated.
\<close>

lemma init_code [code]:
  "init = \<lparr>operations = [], current_index = Int.Neg num.One, lock = False, trace = []\<rparr>"
  by (simp add: init_def)

subsection \<open>List primitives at the top of the stack\<close>

lemma truncate_tail_eq:
  "stack_inv s \<Longrightarrow>
   truncate_tail s = s\<lparr>operations := take (nat (current_index s + 1)) (operations s)\<rparr>"
  by (auto simp: truncate_tail_def stack_inv_def py_del_slice_def slice_bound_def Let_def min_def)

lemma doMerge_short:
  "length (operations s) < 2 \<Longrightarrow> doMerge M s = Returned s"
  by (simp add: doMerge_def)

lemma py_index_top: "py_index (ys @ [y, x]) (int (length ys) + 1) = Inr x"
  by (simp add: py_index_def Let_def nth_append nat_add_distrib)

lemma py_index_below: "py_index (ys @ [y, x]) (int (length ys)) = Inr y"
  by (simp add: py_index_def Let_def nth_append)

lemma py_del_top: "py_del (ys @ [y, x]) (int (length ys) + 1) = Inr (ys @ [y])"
  by (simp add: py_del_def Let_def nat_add_distrib)

lemma py_del_below: "py_del (ys @ [y]) (int (length ys)) = Inr ys"
  by (simp add: py_del_def Let_def)

lemma doMerge_top:
  assumes "operations s = ys @ [y, x]" and "current_index s = int (length ys) + 1"
  shows "doMerge M s =
    (if eligible M x y then
       (case mergeWith M x y of
          None \<Rightarrow> Returned (s\<lparr>trace := trace s @ [MergeWith x y]\<rparr>)
        | Some m \<Rightarrow> Returned (s\<lparr>trace := trace s @ [MergeWith x y], operations := ys @ [m],
                               current_index := int (length ys)\<rparr>))
     else Returned s)"
  using assms
  by (simp add: doMerge_def py_index_top py_index_below py_del_top py_del_below Let_def
      eligible_def split: option.split)

subsection \<open>What a push does to a stack that satisfies the invariant\<close>

lemma apply_operation_eq:
  "stack_inv s \<Longrightarrow>
   apply_operation s x =
   s\<lparr>lock := True, operations := take (nat (current_index s + 1)) (operations s) @ [x],
     trace := trace s @ [Redo x], current_index := current_index s + 1\<rparr>"
  unfolding apply_operation_def
  by (cases s) (simp add: append_apply_def truncate_tail_eq stack_inv_def)

lemma push_first:
  assumes "stack_inv s" "\<not> lock s" "current_index s = - 1"
  shows "push M s x =
    Returned (s\<lparr>operations := [x], current_index := 0, trace := trace s @ [Redo x, Changed]\<rparr>)"
proof -
  let ?a = "apply_operation s x"
  have a: "?a = s\<lparr>lock := True, operations := [x], trace := trace s @ [Redo x],
      current_index := 0\<rparr>"
    using assms by (simp add: apply_operation_eq)
  have "doMerge M ?a = Returned ?a"
    by (rule doMerge_short) (simp add: a)
  then have "push M s x = emit_release (Returned ?a)"
    using assms by (simp add: push_def)
  also have "\<dots> = Returned (s\<lparr>operations := [x], current_index := 0,
      trace := trace s @ [Redo x, Changed]\<rparr>)"
    unfolding a using assms by (cases s) (simp add: emit_release_def)
  finally show ?thesis .
qed

lemma push_next:
  assumes "stack_inv s" "\<not> lock s" "0 \<le> current_index s"
  shows "push M s x =
    Returned
     (let ys = take (nat (current_index s)) (operations s);
          y = operations s ! nat (current_index s)
      in if eligible M x y then
           (case mergeWith M x y of
              None \<Rightarrow> s\<lparr>operations := ys @ [y, x], current_index := current_index s + 1,
                        trace := trace s @ [Redo x, MergeWith x y, Changed]\<rparr>
            | Some m \<Rightarrow> s\<lparr>operations := ys @ [m],
                        trace := trace s @ [Redo x, MergeWith x y, Changed]\<rparr>)
         else s\<lparr>operations := ys @ [y, x], current_index := current_index s + 1,
                trace := trace s @ [Redo x, Changed]\<rparr>)"
proof -
  let ?i = "nat (current_index s)"
  let ?ys = "take ?i (operations s)"
  let ?y = "operations s ! ?i"
  have lt: "?i < length (operations s)"
    using assms by (simp add: stack_inv_def)
  have tk: "take (nat (current_index s + 1)) (operations s) = ?ys @ [?y]"
    using assms lt by (simp add: nat_add_distrib take_Suc_conv_app_nth)
  let ?a = "apply_operation s x"
  have a: "?a = s\<lparr>lock := True, operations := ?ys @ [?y, x], trace := trace s @ [Redo x],
      current_index := current_index s + 1\<rparr>"
    using assms by (simp add: apply_operation_eq tk)
  have ops: "operations ?a = ?ys @ [?y, x]"
    by (simp add: a)
  have ci: "current_index ?a = int (length ?ys) + 1"
    using assms lt by (simp add: a)
  have p: "push M s x = emit_release (doMerge M ?a)"
    using assms by (simp add: push_def)
  show ?thesis
    unfolding p doMerge_top [OF ops ci] unfolding a
    using assms lt
    by (cases s)
       (simp add: emit_release_def Let_def split: option.split)
qed

text \<open>The facts about one push that the later proofs share.\<close>

lemma push_summary:
  assumes "stack_inv s" "\<not> lock s"
  shows "\<exists>s'. push M s x = Returned s' \<and> \<not> lock s' \<and>
           current_index s' = int (length (operations s')) - 1 \<and>
           1 \<le> length (operations s') \<and>
           length (operations s') \<le> nat (current_index s + 1) + 1 \<and>
           ((\<forall>a b. mergeWith M a b = None) \<longrightarrow>
              length (operations s') = nat (current_index s + 1) + 1)"
proof (cases "current_index s = - 1")
  case True
  then show ?thesis
    using assms by (simp add: push_first)
next
  case False
  then have ge: "0 \<le> current_index s"
    using assms by (simp add: stack_inv_def)
  have lt: "nat (current_index s) < length (operations s)"
    using assms ge by (simp add: stack_inv_def)
  show ?thesis
    using assms ge lt
    by (simp add: push_next Let_def nat_add_distrib min_def split: option.split)
qed

text \<open>Every reachable state satisfies the invariant.\<close>

lemma reachable_stack_inv: "reachable M s \<Longrightarrow> stack_inv s"
proof (induction rule: reachable.induct)
  case start
  show ?case by (simp add: init_def stack_inv_def)
next
  case (after_push s x s')
  show ?case
  proof (cases "lock s")
    case True
    then show ?thesis
      using after_push by (simp add: push_def)
  next
    case False
    from push_summary [OF after_push.IH False, of M x] after_push.hyps(2)
    show ?thesis
      by (auto simp: stack_inv_def)
  qed
next
  case (after_undo s s')
  then show ?case
    by (auto simp: undo_def stack_inv_def split: if_splits)
next
  case (after_redo s s')
  then show ?case
    by (auto simp: redo_def stack_inv_def Let_def split: if_splits)
next
  case (guard s b)
  then show ?case
    by (simp add: stack_inv_def)
qed

section \<open>Lemmas on the decoders\<close>

subsection \<open>The record count of the decoders\<close>

lemma bit_length_le: "n < 2 ^ k \<Longrightarrow> bit_length n \<le> k"
proof (induction k arbitrary: n)
  case 0
  then show ?case by simp
next
  case (Suc k)
  show ?case
  proof (cases "n = 0")
    case True
    then show ?thesis by simp
  next
    case False
    have "n div 2 < 2 ^ k"
      using Suc.prems by simp
    then have "bit_length (n div 2) \<le> k"
      by (rule Suc.IH)
    then show ?thesis
      using False by (subst bit_length.simps) simp
  qed
qed

lemma round_double_exact: "q < 2 ^ 53 \<Longrightarrow> round_double q = q"
  using bit_length_le [of q 53] by (simp add: round_double_def)

lemma int_truediv_exact:
  assumes "n < d * 2 ^ 53" and "0 < d"
  shows "int_truediv n d = Inr (n div d)"
proof -
  have q: "n div d < 2 ^ 53"
    using assms by (simp add: less_mult_imp_div_less mult.commute)
  have "(2::nat) ^ 53 \<le> 2 ^ 1024"
    by (rule power_increasing) simp_all
  then have "n div d < 2 ^ 1024"
    using q by linarith
  then show ?thesis
    by (simp add: int_truediv_def round_double_exact [OF q] Let_def)
qed

lemma struct_unpack_record:
  assumes "Suc i * (4 * k) \<le> length data"
  shows "struct_unpack f32 k (py_slice data (i * (4 * k)) (i * (4 * k) + 4 * k)) =
    Inr (map (\<lambda>j. f32 (take 4 (drop (4 * j) (take (4 * k) (drop (i * (4 * k)) data))))) [0..<k])"
  using assms by (simp add: struct_unpack_def py_slice_def)

lemma unpack_records_eq:
  assumes "n * (4 * k) \<le> length data" and "index \<le> n"
  shows "unpack_records f32 k (4 * k) data index n result =
    Inr (result @
         map (\<lambda>i. map (\<lambda>j. f32 (take 4 (drop (4 * j) (take (4 * k) (drop (i * (4 * k)) data)))))
                    [0..<k])
             [index..<n])"
  using assms
proof (induction "n - index" arbitrary: index result)
  case 0
  then show ?case by simp
next
  case (Suc d)
  then have lt: "index < n" by simp
  have "Suc index * (4 * k) \<le> n * (4 * k)"
    using lt by (intro mult_le_mono1) simp
  then have fits: "Suc index * (4 * k) \<le> length data"
    using Suc.prems(1) by linarith
  have ih: "unpack_records f32 k (4 * k) data (Suc index) n (result @ [t]) =
      Inr ((result @ [t]) @
         map (\<lambda>i. map (\<lambda>j. f32 (take 4 (drop (4 * j) (take (4 * k) (drop (i * (4 * k)) data)))))
                    [0..<k])
             [Suc index..<n])" for t
    using Suc.hyps(1) [of "Suc index"] Suc.hyps(2) Suc.prems(1) lt by simp
  show ?case
    using lt by (subst unpack_records.simps)
      (simp add: struct_unpack_record [OF fits] ih upt_conv_Cons del: unpack_records.simps)
qed

section \<open>The push protocol and the merge step\<close>









text \<open>
  \<^bold>\<open>C4\<close>. A push that takes the guard on a stack with a redo tail first cuts the history
  down to its first \<open>currentIndex + 1\<close> entries, then appends the operation, calls its
  \<^verbatim>\<open>redo()\<close> once and moves the cursor to the new last index; the cursor is still the
  last index when the push returns.
\<close>

theorem push_discards_redo_tail:
  assumes "stack_inv s" and "\<not> lock s"
    and "current_index s < int (length (operations s)) - 1"
  shows "operations (truncate_tail (s\<lparr>lock := True\<rparr>)) =
           take (nat (current_index s + 1)) (operations s)
     \<and> length (operations (truncate_tail (s\<lparr>lock := True\<rparr>))) = nat (current_index s + 1)
     \<and> operations (apply_operation s x) = take (nat (current_index s + 1)) (operations s) @ [x]
     \<and> new_events s (apply_operation s x) = [Redo x]
     \<and> current_index (apply_operation s x) = int (length (operations (apply_operation s x))) - 1
     \<and> (\<exists>s'. push M s x = Returned s' \<and> count_list (new_events s s') (Redo x) = 1 \<and>
              current_index s' = int (length (operations s')) - 1)"
proof -
  have inv': "stack_inv (s\<lparr>lock := True\<rparr>)"
    using assms(1) by (simp add: stack_inv_def)
  have t: "operations (truncate_tail (s\<lparr>lock := True\<rparr>)) =
      take (nat (current_index s + 1)) (operations s)"
    by (simp add: truncate_tail_eq [OF inv'])
  have l: "length (take (nat (current_index s + 1)) (operations s)) = nat (current_index s + 1)"
    using assms(1,3) by (simp add: stack_inv_def)
  have a: "apply_operation s x =
      s\<lparr>lock := True, operations := take (nat (current_index s + 1)) (operations s) @ [x],
        trace := trace s @ [Redo x], current_index := current_index s + 1\<rparr>"
    using assms(1) by (rule apply_operation_eq)
  have c: "current_index (apply_operation s x) =
      int (length (operations (apply_operation s x))) - 1"
    using assms(1) unfolding a by (simp add: l [simplified]) (simp add: stack_inv_def)
  have p: "\<exists>s'. push M s x = Returned s' \<and> count_list (new_events s s') (Redo x) = 1 \<and>
              current_index s' = int (length (operations s')) - 1"
  proof (cases "current_index s = - 1")
    case True
    then show ?thesis
      using assms(1,2) by (simp add: push_first new_events_def)
  next
    case False
    then have ge: "0 \<le> current_index s"
      using assms(1) by (simp add: stack_inv_def)
    have lt: "nat (current_index s) < length (operations s)"
      using assms(1) ge by (simp add: stack_inv_def)
    show ?thesis
      using assms(1,2) ge lt
      by (simp add: push_next Let_def new_events_def nat_add_distrib min_def split: option.split)
  qed
  show ?thesis
    using t l c p by (simp add: a new_events_def)
qed

theorem push_discards_redo_tail_witness:
  "operations (apply_operation
      \<lparr>operations = [opA, opB, opC], current_index = 0, lock = False, trace = []\<rparr> opC) = [opA, opC]
   \<and> (\<exists>s'. push (example_methods False)
        \<lparr>operations = [opA, opB, opC], current_index = 0, lock = False, trace = []\<rparr> opC = Returned s'
        \<and> current_index s' = int (length (operations s')) - 1)"
  using push_discards_redo_tail [of
      "\<lparr>operations = [opA, opB, opC], current_index = 0, lock = False, trace = []\<rparr>"
      opC "example_methods False"]
  by (auto simp: stack_inv_def)

text \<open>
  \<^bold>\<open>C5\<close>. A push that finds the guard held returns at once and leaves the whole state as
  it was: the history, the cursor and the trace of effects (no \<^verbatim>\<open>redo()\<close>, no signal),
  and it raises nothing.
\<close>

theorem push_dropped_when_guard_held:
  assumes "lock s"
  shows "push M s x = Returned s"
  using assms by (simp add: push_def)

theorem push_dropped_when_guard_held_witness:
  "push (example_methods True)
     \<lparr>operations = [opA], current_index = 0, lock = True, trace = [Redo opA, Changed]\<rparr> opB =
   Returned \<lparr>operations = [opA], current_index = 0, lock = True, trace = [Redo opA, Changed]\<rparr>"
  using push_dropped_when_guard_held [of
      "\<lparr>operations = [opA], current_index = 0, lock = True, trace = [Redo opA, Changed]\<rparr>"
      "example_methods True" opB]
  by simp

text \<open>
  \<^bold>\<open>C6\<close>. The invariant \<open>-1 \<le> currentIndex \<le> len(operations) - 1\<close> holds of the new
  stack; from a state that satisfies it every push returns in a state that satisfies it,
  and so does every undo and redo that returns (they return whenever the guard is free).
  A push that took the guard leaves the cursor on the last index.
\<close>

theorem stack_inv_preserved:
  fixes s :: "'a operation_stack"
  assumes "stack_inv s"
  shows "stack_inv (init :: 'a operation_stack) \<and>
     (\<exists>s'. push M s x = Returned s' \<and> stack_inv s' \<and>
           (\<not> lock s \<longrightarrow> current_index s' = int (length (operations s')) - 1)) \<and>
     (\<forall>s'. undo s = Some s' \<longrightarrow> stack_inv s') \<and>
     (\<forall>s'. redo s = Some s' \<longrightarrow> stack_inv s') \<and>
     (\<not> lock s \<longrightarrow> undo s \<noteq> None \<and> redo s \<noteq> None)"
proof -
  have i: "stack_inv (init :: 'a operation_stack)"
    by (simp add: init_def stack_inv_def)
  have p: "\<exists>s'. push M s x = Returned s' \<and> stack_inv s' \<and>
           (\<not> lock s \<longrightarrow> current_index s' = int (length (operations s')) - 1)"
  proof (cases "lock s")
    case True
    then show ?thesis
      using assms by (simp add: push_def)
  next
    case False
    from push_summary [OF assms False, of M x]
    obtain s' where "push M s x = Returned s'"
        "current_index s' = int (length (operations s')) - 1"
      by blast
    then show ?thesis
      by (simp add: stack_inv_def)
  qed
  have u: "\<forall>s'. undo s = Some s' \<longrightarrow> stack_inv s'"
    using assms by (auto simp: undo_def stack_inv_def split: if_splits)
  have r: "\<forall>s'. redo s = Some s' \<longrightarrow> stack_inv s'"
    using assms by (auto simp: redo_def stack_inv_def Let_def split: if_splits)
  have t: "\<not> lock s \<longrightarrow> undo s \<noteq> None \<and> redo s \<noteq> None"
    by (simp add: undo_def redo_def Let_def)
  show ?thesis
    using i p u r t by blast
qed

theorem stack_inv_preserved_witness:
  "stack_inv \<lparr>operations = [opA, opB], current_index = 0, lock = False, trace = []\<rparr> \<and>
   (\<exists>s'. push (example_methods True)
           \<lparr>operations = [opA, opB], current_index = 0, lock = False, trace = []\<rparr> opC =
         Returned s' \<and> stack_inv s' \<and> current_index s' = int (length (operations s')) - 1) \<and>
   (\<exists>u. undo \<lparr>operations = [opA, opB], current_index = 0, lock = False, trace = []\<rparr> =
         Some u \<and> stack_inv u) \<and>
   (\<exists>r. redo \<lparr>operations = [opA, opB], current_index = 0, lock = False, trace = []\<rparr> =
         Some r \<and> stack_inv r)"
proof -
  let ?s = "\<lparr>operations = [opA, opB], current_index = 0, lock = False, trace = []\<rparr>"
  have inv: "stack_inv ?s"
    by (simp add: stack_inv_def)
  have free: "\<not> lock ?s"
    by simp
  from stack_inv_preserved [OF inv, of "example_methods True" opC] inv free
  show ?thesis
    by (metis not_Some_eq)
qed

text \<open>
  \<^bold>\<open>C7\<close>. With the guard free, \<^verbatim>\<open>undo\<close> and \<^verbatim>\<open>redo\<close> return and leave the list of
  operations as it was. Inside the history they move the cursor by one and add the call of
  the operation's \<^verbatim>\<open>undo()\<close> or \<^verbatim>\<open>redo()\<close> and one signal to the trace; outside
  they change nothing. After an undo, a redo applies the same operation again and brings
  the cursor back.
\<close>

theorem undo_redo_keep_operations:
  assumes "\<not> lock s"
  shows "\<exists>u r. undo s = Some u \<and> redo s = Some r \<and>
     operations u = operations s \<and> operations r = operations s \<and>
     (if 0 \<le> current_index s \<and> current_index s < int (length (operations s))
      then current_index u = current_index s - 1 \<and>
           new_events s u = [Undo (operations s ! nat (current_index s)), Changed] \<and>
           (\<exists>r'. redo u = Some r' \<and> operations r' = operations s \<and>
                 current_index r' = current_index s \<and>
                 new_events u r' = [Redo (operations s ! nat (current_index s)), Changed])
      else u = s) \<and>
     (if 0 \<le> current_index s + 1 \<and> current_index s + 1 < int (length (operations s))
      then current_index r = current_index s + 1 \<and>
           new_events s r = [Redo (operations s ! nat (current_index s + 1)), Changed]
      else r = s)"
  using assms by (simp add: undo_def redo_def Let_def new_events_def)

theorem undo_redo_keep_operations_witness:
  "\<exists>u. undo \<lparr>operations = [opA, opB], current_index = 1, lock = False, trace = []\<rparr> = Some u \<and>
       operations u = [opA, opB] \<and> current_index u = 0 \<and>
       (\<exists>r'. redo u = Some r' \<and> operations r' = [opA, opB] \<and> current_index r' = 1)"
  using undo_redo_keep_operations [of
      "\<lparr>operations = [opA, opB], current_index = 1, lock = False, trace = []\<rparr>"]
  by auto

text \<open>
  \<^bold>\<open>C8\<close>. With the cursor below 0 or beyond the history, \<^verbatim>\<open>undo\<close> returns the state
  unchanged, trace included: no \<^verbatim>\<open>undo()\<close> is called, no signal is emitted, nothing is
  raised. The same holds of \<^verbatim>\<open>redo\<close> when the index after the cursor is outside the
  history. The signal is emitted once by an undo or redo that changed the state and not by
  one that did not; a push that took the guard changes the state and emits it once.
\<close>

theorem undo_redo_noop_outside_history:
  assumes "\<not> lock s"
  shows "(current_index s < 0 \<or> current_index s \<ge> int (length (operations s)) \<longrightarrow>
            undo s = Some s) \<and>
         (current_index s + 1 < 0 \<or> current_index s + 1 \<ge> int (length (operations s)) \<longrightarrow>
            redo s = Some s) \<and>
         (\<exists>u r. undo s = Some u \<and> redo s = Some r \<and>
            count_list (new_events s u) Changed = (if u = s then 0 else 1) \<and>
            count_list (new_events s r) Changed = (if r = s then 0 else 1)) \<and>
         (stack_inv s \<longrightarrow>
            (\<exists>p. push M s x = Returned p \<and> p \<noteq> s \<and>
                 count_list (new_events s p) Changed = 1))"
proof -
  have u: "current_index s < 0 \<or> current_index s \<ge> int (length (operations s)) \<longrightarrow>
            undo s = Some s"
    using assms by (auto simp: undo_def)
  have r: "current_index s + 1 < 0 \<or> current_index s + 1 \<ge> int (length (operations s)) \<longrightarrow>
            redo s = Some s"
    using assms by (auto simp: redo_def Let_def)
  have neq: "s\<lparr>trace := trace s @ es, current_index := c\<rparr> \<noteq> s" if "c \<noteq> current_index s" for es c
  proof
    assume "s\<lparr>trace := trace s @ es, current_index := c\<rparr> = s"
    then have "current_index (s\<lparr>trace := trace s @ es, current_index := c\<rparr>) = current_index s"
      by simp
    with that show False by simp
  qed
  have c: "\<exists>u r. undo s = Some u \<and> redo s = Some r \<and>
            count_list (new_events s u) Changed = (if u = s then 0 else 1) \<and>
            count_list (new_events s r) Changed = (if r = s then 0 else 1)"
    using assms by (simp add: undo_def redo_def Let_def new_events_def neq)
  have p: "stack_inv s \<longrightarrow>
            (\<exists>p. push M s x = Returned p \<and> p \<noteq> s \<and>
                 count_list (new_events s p) Changed = 1)"
  proof
    assume inv: "stack_inv s"
    have grow: "t \<noteq> s" if "length (trace t) \<noteq> length (trace s)" for t
      using that by auto
    show "\<exists>p. push M s x = Returned p \<and> p \<noteq> s \<and> count_list (new_events s p) Changed = 1"
    proof (cases "current_index s = - 1")
      case True
      show ?thesis
        using inv assms True by (simp add: push_first new_events_def grow)
    next
      case False
      then have ge: "0 \<le> current_index s"
        using inv by (simp add: stack_inv_def)
      show ?thesis
        using inv assms ge
        by (simp add: push_next Let_def new_events_def grow split: option.split)
    qed
  qed
  show ?thesis
    using u r c p by blast
qed

theorem undo_redo_noop_outside_history_witness:
  "undo (init :: example_op operation_stack) = Some init \<and>
   redo \<lparr>operations = [opA], current_index = 0, lock = False, trace = []\<rparr> =
     Some \<lparr>operations = [opA], current_index = 0, lock = False, trace = []\<rparr>"
  using undo_redo_noop_outside_history [of "init :: example_op operation_stack"]
    undo_redo_noop_outside_history [of
      "\<lparr>operations = [opA], current_index = 0, lock = False, trace = []\<rparr>"]
  by (simp add: init_def)

section \<open>The decoders\<close>

text \<open>
  \<^bold>\<open>C9\<close>. A buffer whose length is not a multiple of 12 (of 24 for the decoder with
  normals) makes the decoder log one error and return \<^verbatim>\<open>None\<close>; nothing is raised. A
  buffer whose length is a multiple gives a list with one tuple for each record, the tuple
  of record \<open>i\<close> holding the 3 (or 6) floats decoded from the consecutive groups of four
  bytes of bytes \<open>12 * i\<close> to \<open>12 * i + 11\<close> (or \<open>24 * i\<close> to \<open>24 * i + 23\<close>). The count of
  records goes through a double, so the buffer is taken to hold fewer than \<open>2 ^ 53\<close>
  records, which is every buffer that fits in memory.
\<close>

theorem decoders_check_length_and_unpack:
  "(length data mod 12 \<noteq> 0 \<longrightarrow>
      convertBytesToVerticeList f32 (Some data) =
        ([(''e'', ''Data length was incorrect for requested type'')], Inr None)) \<and>
   (length data mod 12 = 0 \<and> length data < 12 * 2 ^ 53 \<longrightarrow>
      (\<exists>vs. convertBytesToVerticeList f32 (Some data) = ([], Inr (Some vs)) \<and>
            length vs = length data div 12 \<and>
            (\<forall>i<length vs. length (vs ! i) = 3) \<and>
            vs = map (\<lambda>i. map (\<lambda>j. f32 (take 4 (drop (4 * j) (take 12 (drop (i * 12) data)))))
                              [0..<3])
                     [0..<length data div 12])) \<and>
   (length data mod 24 \<noteq> 0 \<longrightarrow>
      convertBytesToVerticeWithNormalsList f32 (Some data) =
        ([(''e'', ''Data length was incorrect for requested type'')], Inr None)) \<and>
   (length data mod 24 = 0 \<and> length data < 24 * 2 ^ 53 \<longrightarrow>
      (\<exists>vs. convertBytesToVerticeWithNormalsList f32 (Some data) = ([], Inr (Some vs)) \<and>
            length vs = length data div 24 \<and>
            (\<forall>i<length vs. length (vs ! i) = 6) \<and>
            vs = map (\<lambda>i. map (\<lambda>j. f32 (take 4 (drop (4 * j) (take 24 (drop (i * 24) data)))))
                              [0..<6])
                     [0..<length data div 24]))"
proof -
  have bad12: "length data mod 12 \<noteq> 0 \<longrightarrow>
      convertBytesToVerticeList f32 (Some data) =
        ([(''e'', ''Data length was incorrect for requested type'')], Inr None)"
    by (simp add: convertBytesToVerticeList_def)
  have bad24: "length data mod 24 \<noteq> 0 \<longrightarrow>
      convertBytesToVerticeWithNormalsList f32 (Some data) =
        ([(''e'', ''Data length was incorrect for requested type'')], Inr None)"
    by (simp add: convertBytesToVerticeWithNormalsList_def)
  have good12: "convertBytesToVerticeList f32 (Some data) =
      ([], Inr (Some (map (\<lambda>i. map (\<lambda>j. f32 (take 4 (drop (4 * j) (take 12 (drop (i * 12) data)))))
                              [0..<3])
                     [0..<length data div 12])))"
    if m: "length data mod 12 = 0" and b: "length data < 12 * 2 ^ 53"
  proof -
    have n: "int_truediv (length data) 12 = Inr (length data div 12)"
      using b by (intro int_truediv_exact) simp_all
    have fits: "length data div 12 * (4 * 3) \<le> length data"
      by simp
    from unpack_records_eq [OF fits, of 0 f32 "[]"]
    have "unpack_records f32 3 12 data 0 (length data div 12) [] =
      Inr (map (\<lambda>i. map (\<lambda>j. f32 (take 4 (drop (4 * j) (take 12 (drop (i * 12) data)))))
                              [0..<3])
                     [0..<length data div 12])"
      by simp
    then show ?thesis
      using m by (simp add: convertBytesToVerticeList_def n)
  qed
  have good24: "convertBytesToVerticeWithNormalsList f32 (Some data) =
      ([], Inr (Some (map (\<lambda>i. map (\<lambda>j. f32 (take 4 (drop (4 * j) (take 24 (drop (i * 24) data)))))
                              [0..<6])
                     [0..<length data div 24])))"
    if m: "length data mod 24 = 0" and b: "length data < 24 * 2 ^ 53"
  proof -
    have n: "int_truediv (length data) 24 = Inr (length data div 24)"
      using b by (intro int_truediv_exact) simp_all
    have fits: "length data div 24 * (4 * 6) \<le> length data"
      by simp
    from unpack_records_eq [OF fits, of 0 f32 "[]"]
    have "unpack_records f32 6 24 data 0 (length data div 24) [] =
      Inr (map (\<lambda>i. map (\<lambda>j. f32 (take 4 (drop (4 * j) (take 24 (drop (i * 24) data)))))
                              [0..<6])
                     [0..<length data div 24])"
      by simp
    then show ?thesis
      using m by (simp add: convertBytesToVerticeWithNormalsList_def n)
  qed
  show ?thesis
    using bad12 bad24 good12 good24 by simp
qed

theorem decoders_check_length_and_unpack_witness:
  "convertBytesToVerticeList (\<lambda>bs. bs) (Some [1, 2, 3, 4, 5]) =
     ([(''e'', ''Data length was incorrect for requested type'')], Inr None) \<and>
   (\<exists>vs. convertBytesToVerticeList (\<lambda>bs. bs) (Some [1, 2, 3, 4, 5, 6, 7, 8, 9, 10, 11, 12]) =
           ([], Inr (Some vs)) \<and>
         vs = [[[1, 2, 3, 4], [5, 6, 7, 8], [9, 10, 11, 12]]]) \<and>
   convertBytesToVerticeWithNormalsList (\<lambda>bs. bs) (Some [1, 2, 3, 4, 5, 6, 7, 8, 9, 10, 11, 12]) =
     ([(''e'', ''Data length was incorrect for requested type'')], Inr None) \<and>
   (\<exists>vs. convertBytesToVerticeWithNormalsList (\<lambda>bs. bs)
           (Some [1, 2, 3, 4, 5, 6, 7, 8, 9, 10, 11, 12,
                  13, 14, 15, 16, 17, 18, 19, 20, 21, 22, 23, 24]) = ([], Inr (Some vs)) \<and>
         vs = [[[1, 2, 3, 4], [5, 6, 7, 8], [9, 10, 11, 12],
                [13, 14, 15, 16], [17, 18, 19, 20], [21, 22, 23, 24]]])"
  using decoders_check_length_and_unpack [of "[1, 2, 3, 4, 5]" "\<lambda>bs. bs"]
    decoders_check_length_and_unpack [of "[1, 2, 3, 4, 5, 6, 7, 8, 9, 10, 11, 12]" "\<lambda>bs. bs"]
    decoders_check_length_and_unpack [of "[1, 2, 3, 4, 5, 6, 7, 8, 9, 10, 11, 12,
                  13, 14, 15, 16, 17, 18, 19, 20, 21, 22, 23, 24]" "\<lambda>bs. bs"]
  by (simp add: upt_conv_Cons)

text \<open>
  \<^bold>\<open>C10\<close>. On the empty buffer both decoders return the empty list and log nothing.
\<close>

theorem decoders_accept_empty_buffer:
  "convertBytesToVerticeList f32 (Some []) = ([], Inr (Some [])) \<and>
   convertBytesToVerticeWithNormalsList f32 (Some []) = ([], Inr (Some []))"
  by (simp add: convertBytesToVerticeList_def convertBytesToVerticeWithNormalsList_def
      int_truediv_def round_double_def)

end
